theory Spec2Isabelle
  imports Main "HOL-Library.Sublist" "HOL-Library.Multiset"
begin

section \<open>The i18n checker script \<^verbatim>\<open>scripts/apply_i18n_auto.py\<close>\<close>

subsection \<open>Python strings\<close>

text \<open>
  A Python \<^verbatim>\<open>str\<close> is a sequence of Unicode code points and \<^verbatim>\<open>len\<close> counts code
  points, so a string is a list of code points (natural numbers), not of bytes.
  \<open>str\<close> reads an ASCII literal of the source as such a string.
\<close>

type_synonym pystr = "nat list"

definition str :: "string \<Rightarrow> pystr" where
  "str s = map of_char s"

definition quote :: nat where
  "quote = 34"

definition backslash :: nat where
  "backslash = 92"

definition newline :: nat where
  "newline = 10"

text \<open>\<^verbatim>\<open>needle in hay\<close> on strings: \<open>needle\<close> occurs in \<open>hay\<close> as a contiguous run.\<close>

fun str_contains :: "pystr \<Rightarrow> pystr \<Rightarrow> bool" where
  "str_contains needle [] = (needle = [])"
| "str_contains needle (c # cs) = (prefix needle (c # cs) \<or> str_contains needle cs)"

text \<open>\<^verbatim>\<open>string.startswith(p)\<close>.\<close>

definition startswith :: "pystr \<Rightarrow> pystr \<Rightarrow> bool" where
  "startswith string p = prefix p string"

text \<open>\<^verbatim>\<open>str(n)\<close> of a non-negative integer, as the f-string formats \<^verbatim>\<open>len(strings)\<close>.\<close>

function str_of_nat :: "nat \<Rightarrow> pystr" where
  "str_of_nat n = (if n < 10 then [48 + n] else str_of_nat (n div 10) @ [48 + n mod 10])"
  by pat_completeness auto
termination
  by (relation "measure (\<lambda>n. n)") auto

declare str_of_nat.simps [simp del]

subsection \<open>The mapping table\<close>

text \<open>
  The dictionary \<^verbatim>\<open>TRANSLATIONS\<close>, in the order of the source. Each key is the literal
  with its double quotes. The values of the two entries that end in \<^verbatim>\<open>' '\<close> have their
  last apostrophe (code point 39) appended.
\<close>

definition TRANSLATIONS :: "(pystr \<times> pystr) list" where
  \<open>TRANSLATIONS =
   [(str ''"Welcome Back"'', str ''t('auth.welcomeBack')''),
    (str ''"Sign in to continue to Patrick Travel Services"'', str ''t('auth.signInToContinue')''),
    (str ''"Create Account"'', str ''t('auth.createAccount')''),
    (str ''"Sign up to get started with Patrick Travel Services"'', str ''t('auth.signUpToGetStarted')''),
    (str ''"Email"'', str ''t('auth.email')''),
    (str ''"Password"'', str ''t('auth.password')''),
    (str ''"Confirm Password"'', str ''t('auth.confirmPassword')''),
    (str ''"First Name"'', str ''t('auth.firstName')''),
    (str ''"Last Name"'', str ''t('auth.lastName')''),
    (str ''"Phone (Optional)"'', str ''t('auth.phoneOptional')''),
    (str ''"Sign In"'', str ''t('auth.signIn')''),
    (str ''"Sign Up"'', str ''t('auth.signUp')''),
    (str ''"Remember me"'', str ''t('auth.rememberMe')''),
    (str ''"Forgot Password?"'', str ''t('auth.forgotPassword')''),
    (str ''"Don't have an account? "'', str ''t('auth.dontHaveAccount') + ' '' @ [39]),
    (str ''"Already have an account? "'', str ''t('auth.alreadyHaveAccount') + ' '' @ [39]),
    (str ''"Total Cases"'', str ''t('dashboard.totalCases')''),
    (str ''"Active Cases"'', str ''t('dashboard.activeCases')''),
    (str ''"Pending Documents"'', str ''t('dashboard.pendingDocuments')''),
    (str ''"Unread Messages"'', str ''t('dashboard.unreadMessages')''),
    (str ''"Quick Actions"'', str ''t('dashboard.quickActions')''),
    (str ''"Submit New Case"'', str ''t('dashboard.submitNewCase')''),
    (str ''"Upload Document"'', str ''t('dashboard.uploadDocument')''),
    (str ''"View FAQs"'', str ''t('dashboard.viewFAQs')''),
    (str ''"Search by reference number"'', str ''t('cases.searchByReference')''),
    (str ''"No cases found"'', str ''t('cases.noCasesFound')''),
    (str ''"Message Advisor"'', str ''t('cases.messageAdvisor')''),
    (str ''"Status History"'', str ''t('cases.statusHistory')''),
    (str ''"Loading..."'', str ''t('common.loading')''),
    (str ''"Success"'', str ''t('common.success')''),
    (str ''"Error"'', str ''t('common.error')''),
    (str ''"OK"'', str ''t('common.ok')''),
    (str ''"Cancel"'', str ''t('common.cancel')''),
    (str ''"Save"'', str ''t('common.save')''),
    (str ''"Delete"'', str ''t('common.delete')'')]\<close>

text \<open>\<^verbatim>\<open>s in TRANSLATIONS\<close> and \<^verbatim>\<open>TRANSLATIONS[s]\<close>: \<open>None\<close> when \<open>s\<close> is no key.\<close>

definition lookup :: "pystr \<Rightarrow> pystr option" where
  "lookup s = map_of TRANSLATIONS s"

subsection \<open>The file system and standard output\<close>

text \<open>
  A path that \<^verbatim>\<open>os.path.exists\<close> accepts is either a text file, holding the text that
  \<^verbatim>\<open>f.read()\<close> returns, or something \<^verbatim>\<open>open\<close> or \<^verbatim>\<open>read\<close> raises on (a directory, a file
  without read permission, bytes that are not UTF-8). Standard output is the list of the
  strings printed so far, one per call of \<^verbatim>\<open>print\<close>.
\<close>

datatype node = TextFile pystr | Unreadable

datatype error = FileNotFound | ReadError

record world =
  fs :: "pystr \<Rightarrow> node option"
  stdout :: "pystr list"

definition os_path_exists :: "world \<Rightarrow> pystr \<Rightarrow> bool" where
  "os_path_exists w file_path = (fs w file_path \<noteq> None)"

text \<open>\<^verbatim>\<open>with open(file_path, 'r', encoding='utf-8') as f: content = f.read()\<close>.\<close>

definition open_read :: "world \<Rightarrow> pystr \<Rightarrow> error + pystr" where
  "open_read w file_path =
     (case fs w file_path of
        None \<Rightarrow> Inl FileNotFound
      | Some Unreadable \<Rightarrow> Inl ReadError
      | Some (TextFile content) \<Rightarrow> Inr content)"

definition print :: "pystr \<Rightarrow> world \<Rightarrow> world" where
  "print s w = w\<lparr>stdout := stdout w @ [s]\<rparr>"

subsection \<open>Extraction of string literals\<close>

text \<open>
  The pattern \<^verbatim>\<open>"([^"\\]*(\\.[^"\\]*)*)"\<close>. After the opening quote the match reads
  characters other than the quote and the backslash, and pairs of a backslash and one more
  character; \<^verbatim>\<open>.\<close> matches every character but the line feed. Giving back a character never
  opens another way to match, so the scan is deterministic: it ends at the first quote
  that is not the second half of such a pair, and fails at a backslash followed by a line
  feed or by the end of the text, and at the end of the text.
  \<open>scan_body acc cs\<close> returns the interior (group 1) and the text after the closing quote.
\<close>

fun scan_body :: "pystr \<Rightarrow> pystr \<Rightarrow> (pystr \<times> pystr) option" where
  "scan_body acc [] = None"
| "scan_body acc (c # cs) =
     (if c = quote then Some (rev acc, cs)
      else if c = backslash then
        (case cs of
           [] \<Rightarrow> None
         | d # ds \<Rightarrow> if d = newline then None else scan_body (d # c # acc) ds)
      else scan_body (c # acc) cs)"

text \<open>
  \<^verbatim>\<open>re.findall(pattern, content)\<close>: the matches from left to right, without overlap; after a
  failed attempt at a quote the search goes on at the next character. The pattern has two
  groups, so \<^verbatim>\<open>findall\<close> returns pairs and the script takes \<^verbatim>\<open>match[0]\<close>, the interior:
  \<open>findall\<close> returns that component.
\<close>

function findall :: "pystr \<Rightarrow> pystr list" where
  "findall [] = []"
| "findall (c # cs) =
     (if c = quote then
        (case scan_body [] cs of
           Some (s, rest) \<Rightarrow> s # findall rest
         | None \<Rightarrow> findall cs)
      else findall cs)"
  by pat_completeness auto
termination
proof -
  have shorter: "scan_body acc ys = Some (t, r) \<Longrightarrow> length r < length ys"
    for acc ys t r
    by (induction acc ys rule: scan_body.induct) (fastforce split: if_splits list.splits)+
  show ?thesis
    by (relation "measure length") (auto dest: shorter)
qed

subsection \<open>\<^verbatim>\<open>find_hardcoded_strings\<close>\<close>

text \<open>The test of the filter loop, and the f-string \<^verbatim>\<open>f'"{string}"'\<close>.\<close>

definition keep :: "pystr \<Rightarrow> bool" where
  "keep string \<longleftrightarrow>
     length string > 2 \<and> \<not> startswith string (str ''/'') \<and> \<not> startswith string (str ''#'')"

definition wrap :: "pystr \<Rightarrow> pystr" where
  "wrap string = [quote] @ string @ [quote]"

text \<open>The loop \<^verbatim>\<open>for match in matches\<close>, with \<^verbatim>\<open>ui_strings\<close> as the accumulator.\<close>

fun filter_loop :: "pystr list \<Rightarrow> pystr list \<Rightarrow> pystr list" where
  "filter_loop [] ui_strings = ui_strings"
| "filter_loop (string # matches) ui_strings =
     filter_loop matches (if keep string then ui_strings @ [wrap string] else ui_strings)"

text \<open>
  \<^verbatim>\<open>list(set(ui_strings))\<close>: \<^verbatim>\<open>set\<close> keeps one copy of each element (\<open>remdups\<close>), and \<^verbatim>\<open>list\<close>
  reads them in the iteration order of the set, which depends on the string hashes of the
  process. That order is a parameter \<open>iter\<close> of the model; all it has to do is to
  rearrange its argument.
\<close>

definition iteration_order :: "(pystr list \<Rightarrow> pystr list) \<Rightarrow> bool" where
  "iteration_order iter \<longleftrightarrow> (\<forall>xs. mset (iter xs) = mset xs)"

definition list_of_set :: "(pystr list \<Rightarrow> pystr list) \<Rightarrow> pystr list \<Rightarrow> pystr list" where
  "list_of_set iter xs = iter (remdups xs)"

definition find_hardcoded_strings ::
  "(pystr list \<Rightarrow> pystr list) \<Rightarrow> world \<Rightarrow> pystr \<Rightarrow> error + pystr list" where
  "find_hardcoded_strings iter w file_path =
     (case open_read w file_path of
        Inl e \<Rightarrow> Inl e
      | Inr content \<Rightarrow> Inr (list_of_set iter (filter_loop (findall content) [])))"

subsection \<open>\<^verbatim>\<open>check_file\<close> and the script\<close>

text \<open>The printed lines. Code points: 128196 the page, 10060 the cross, 9989 the check
  mark, 8594 the arrow, 127757 the globe.\<close>

definition header_line :: "pystr \<Rightarrow> pystr" where
  "header_line file_path = [newline, 128196, 32] @ file_path"

definition missing_import_line :: pystr where
  "missing_import_line =
     [32, 32, 10060] @ str '' Missing: import { useTranslation } from 'react-i18next';''"

definition missing_hook_line :: pystr where
  "missing_hook_line = [32, 32, 10060] @ str '' Missing: const { t } = useTranslation();''"

definition imported_line :: pystr where
  "imported_line = [32, 32, 9989] @ str '' useTranslation imported''"

definition found_line :: "nat \<Rightarrow> pystr" where
  "found_line n = str ''  Found '' @ str_of_nat n @ str '' potential hardcoded strings''"

definition suggestion_line :: "pystr \<Rightarrow> pystr \<Rightarrow> pystr" where
  "suggestion_line s v = str ''    '' @ s @ [32, 8594, 32] @ v"

text \<open>The loop \<^verbatim>\<open>for s in strings[:5]\<close>.\<close>

definition preview_step :: "pystr \<Rightarrow> world \<Rightarrow> world" where
  "preview_step s w =
     (case lookup s of
        Some v \<Rightarrow> print (suggestion_line s v) w
      | None \<Rightarrow> w)"

fun preview :: "pystr list \<Rightarrow> world \<Rightarrow> world" where
  "preview [] w = w"
| "preview (s # ss) w = preview ss (preview_step s w)"

text \<open>
  \<open>check_file\<close> returns the world after the call and the exception that ended it, if one
  did; what was printed before the exception stays printed.
\<close>

definition check_file ::
  "(pystr list \<Rightarrow> pystr list) \<Rightarrow> pystr \<Rightarrow> world \<Rightarrow> error option \<times> world" where
  "check_file iter file_path w =
     (if \<not> os_path_exists w file_path then (None, w)
      else
        let w1 = print (header_line file_path) w in
        case open_read w1 file_path of
          Inl e \<Rightarrow> (Some e, w1)
        | Inr content \<Rightarrow>
            let w2 = (if \<not> str_contains (str ''useTranslation'') content
                      then print missing_hook_line (print missing_import_line w1)
                      else print imported_line w1) in
            (case find_hardcoded_strings iter w2 file_path of
               Inl e \<Rightarrow> (Some e, w2)
             | Inr strings \<Rightarrow>
                 if strings \<noteq> []
                 then (None, preview (take 5 strings) (print (found_line (length strings)) w2))
                 else (None, w2)))"

definition files :: "pystr list" where
  "files =
     [str ''features/auth/screens/RegisterScreen.tsx'',
      str ''features/auth/screens/ForgotPasswordScreen.tsx'',
      str ''app/(tabs)/index.tsx'',
      str ''app/(tabs)/cases.tsx'',
      str ''app/(tabs)/documents.tsx'',
      str ''app/(tabs)/messages.tsx'',
      str ''app/(tabs)/profile.tsx'']"

text \<open>The loop \<^verbatim>\<open>for file in files: check_file(file)\<close>; an exception ends it.\<close>

fun check_files ::
  "(pystr list \<Rightarrow> pystr list) \<Rightarrow> pystr list \<Rightarrow> world \<Rightarrow> error option \<times> world" where
  "check_files iter [] w = (None, w)"
| "check_files iter (file # rest) w =
     (case check_file iter file w of
        (Some e, w') \<Rightarrow> (Some e, w')
      | (None, w') \<Rightarrow> check_files iter rest w')"

definition main :: "(pystr list \<Rightarrow> pystr list) \<Rightarrow> world \<Rightarrow> error option \<times> world" where
  "main iter w =
     (let w1 = print ([127757] @ str '' i18n Checker - Patrick Travel Services Mobile'') w;
          w2 = print (replicate 60 61) w1
      in case check_files iter files w2 of
           (Some e, w3) \<Rightarrow> (Some e, w3)
         | (None, w3) \<Rightarrow>
             (None,
              print ([newline] @ str ''See I18N_IMPLEMENTATION.md for full translation guide'')
                (print ([newline, 9989] @ str '' Check complete!'') w3)))"

text \<open>What a call printed: the lines it added to standard output.\<close>

definition report :: "world \<Rightarrow> world \<Rightarrow> pystr list" where
  "report w w' = drop (length (stdout w)) (stdout w')"

subsection \<open>The shape of a report\<close>

text \<open>
  The lines \<open>check_file\<close> prints for a text file, written as one expression: the header,
  the marker lines, and, when there is a candidate, the count and the suggestions for
  those of the first five candidates that are keys of the table.
\<close>

definition marker_lines :: "pystr \<Rightarrow> pystr list" where
  "marker_lines content =
     (if \<not> str_contains (str ''useTranslation'') content
      then [missing_import_line, missing_hook_line]
      else [imported_line])"

definition candidates :: "(pystr list \<Rightarrow> pystr list) \<Rightarrow> pystr \<Rightarrow> pystr list" where
  "candidates iter content = list_of_set iter (filter_loop (findall content) [])"

definition suggestion_lines :: "pystr list \<Rightarrow> pystr list" where
  "suggestion_lines ss =
     map (\<lambda>s. suggestion_line s (the (lookup s))) (filter (\<lambda>s. s \<in> fst ` set TRANSLATIONS) ss)"

definition file_lines :: "(pystr list \<Rightarrow> pystr list) \<Rightarrow> pystr \<Rightarrow> pystr \<Rightarrow> pystr list" where
  "file_lines iter file_path content =
     header_line file_path # marker_lines content @
     (if candidates iter content = [] then []
      else found_line (length (candidates iter content)) #
           suggestion_lines (take 5 (candidates iter content)))"


subsection \<open>Example inputs\<close>

definition welcome_text :: pystr where
  \<open>welcome_text = str ''const x = "Welcome Back"; const y = "Welcome Back";''\<close>

text \<open>A file system holding one text file, and nothing printed yet.\<close>

definition one_file :: "pystr \<Rightarrow> pystr \<Rightarrow> world" where
  "one_file file_path content =
     \<lparr>fs = (\<lambda>p. if p = file_path then Some (TextFile content) else None), stdout = []\<rparr>"

text \<open>A file that calls the hook, and a file without a double-quoted literal.\<close>

definition hook_text :: pystr where
  "hook_text = str ''const { t } = useTranslation();''"

definition plain_text :: pystr where
  "plain_text = str ''const x = 1;''"

text \<open>
  A file system in which the path exists but cannot be read as text (a file without read
  permission or with bytes that are not UTF-8, a directory), and nothing printed yet.
\<close>

definition unreadable_file :: "pystr \<Rightarrow> world" where
  "unreadable_file file_path =
     \<lparr>fs = (\<lambda>p. if p = file_path then Some Unreadable else None), stdout = []\<rparr>"

text \<open>A call with a short literal, a path, a colour code and a word.\<close>

definition mixed_text :: pystr where
  \<open>mixed_text = str ''f("ab", "/home", "#fff", "Hello")''\<close>

text \<open>A file with the literals \<^verbatim>\<open>"OK"\<close> and \<^verbatim>\<open>"Cancel"\<close>.\<close>

definition ok_text :: pystr where
  \<open>ok_text = str ''alert("OK"); close("Cancel");''\<close>



section \<open>Properties\<close>

subsection \<open>Auxiliary facts\<close>

lemma fs_print [simp]: "fs (print s w) = fs w"
  by (simp add: print_def)

lemma stdout_print [simp]: "stdout (print s w) = stdout w @ [s]"
  by (simp add: print_def)

lemma open_read_print [simp]: "open_read (print s w) p = open_read w p"
  by (simp add: open_read_def)

lemma open_read_stdout [simp]: "open_read (w\<lparr>stdout := out\<rparr>) p = open_read w p"
  by (simp add: open_read_def)

lemma str_contains_iff: "str_contains needle hay \<longleftrightarrow> (\<exists>pre post. hay = pre @ needle @ post)"
proof (induction hay)
  case Nil
  then show ?case by auto
next
  case (Cons c cs)
  show ?case
  proof
    assume "str_contains needle (c # cs)"
    then consider "prefix needle (c # cs)" | "str_contains needle cs" by auto
    then show "\<exists>pre post. c # cs = pre @ needle @ post"
    proof cases
      case 1
      then obtain post where "c # cs = needle @ post" by (auto simp: prefix_def)
      then have "c # cs = [] @ needle @ post" by simp
      then show ?thesis by blast
    next
      case 2
      with Cons obtain pre post where "cs = pre @ needle @ post" by auto
      then have "c # cs = (c # pre) @ needle @ post" by simp
      then show ?thesis by blast
    qed
  next
    assume "\<exists>pre post. c # cs = pre @ needle @ post"
    then obtain pre post where eq: "c # cs = pre @ needle @ post" by auto
    show "str_contains needle (c # cs)"
    proof (cases pre)
      case Nil
      with eq have "prefix needle (c # cs)" by (simp add: prefix_def)
      then show ?thesis by simp
    next
      case (Cons a pre')
      with eq have "cs = pre' @ needle @ post" by simp
      with Cons.IH have "str_contains needle cs" by blast
      then show ?thesis by simp
    qed
  qed
qed

lemma filter_loop_eq: "filter_loop matches ui = ui @ map wrap (filter keep matches)"
  by (induction matches arbitrary: ui) auto

lemma lookup_Some_iff: "lookup s = Some v \<longleftrightarrow> (s, v) \<in> set TRANSLATIONS"
proof -
  have "distinct (map fst TRANSLATIONS)"
    by (simp add: TRANSLATIONS_def str_def)
  then show ?thesis
    by (simp add: lookup_def)
qed

lemma lookup_None_iff: "lookup s = None \<longleftrightarrow> s \<notin> fst ` set TRANSLATIONS"
  by (simp add: lookup_def map_of_eq_None_iff)

lemma fs_preview_step [simp]: "fs (preview_step s w) = fs w"
  by (simp add: preview_step_def split: option.splits)

lemma fs_preview [simp]: "fs (preview ss w) = fs w"
  by (induction ss arbitrary: w) auto

lemma stdout_preview_step:
  "stdout (preview_step s w) = stdout w @ suggestion_lines [s]"
  by (auto simp: preview_step_def suggestion_lines_def lookup_None_iff [symmetric]
      split: option.splits)

lemma suggestion_lines_append:
  "suggestion_lines (xs @ ys) = suggestion_lines xs @ suggestion_lines ys"
  by (simp add: suggestion_lines_def)

lemma stdout_preview: "stdout (preview ss w) = stdout w @ suggestion_lines ss"
proof (induction ss arbitrary: w)
  case Nil
  then show ?case by (simp add: suggestion_lines_def)
next
  case (Cons s ss)
  have "suggestion_lines (s # ss) = suggestion_lines [s] @ suggestion_lines ss"
    using suggestion_lines_append [of "[s]" ss] by simp
  with Cons show ?case
    by (simp add: stdout_preview_step)
qed

lemma preview_eq: "preview ss w = w\<lparr>stdout := stdout w @ suggestion_lines ss\<rparr>"
  by (rule world.equality) (simp_all add: stdout_preview)

lemma check_file_missing: "fs w p = None \<Longrightarrow> check_file iter p w = (None, w)"
  by (simp add: check_file_def os_path_exists_def)

lemma check_file_unreadable:
  "fs w p = Some Unreadable \<Longrightarrow>
   check_file iter p w = (Some ReadError, w\<lparr>stdout := stdout w @ [header_line p]\<rparr>)"
  by (simp add: check_file_def os_path_exists_def open_read_def print_def)

lemma check_file_text:
  assumes "fs w p = Some (TextFile content)"
  shows "check_file iter p w = (None, w\<lparr>stdout := stdout w @ file_lines iter p content\<rparr>)"
proof -
  have ex: "os_path_exists w p"
    using assms by (simp add: os_path_exists_def)
  have rd: "open_read w p = Inr content"
    using assms by (simp add: open_read_def)
  show ?thesis
    by (simp add: check_file_def ex rd find_hardcoded_strings_def Let_def preview_eq
        file_lines_def marker_lines_def candidates_def print_def)
qed

lemma iter_single: "iteration_order iter \<Longrightarrow> iter [x] = [x]"
proof -
  assume "iteration_order iter"
  then have "mset (iter [x]) = {#x#}"
    by (simp add: iteration_order_def)
  then show ?thesis
    by simp
qed

lemma iter_set: "iteration_order iter \<Longrightarrow> set (iter xs) = set xs"
  by (metis iteration_order_def set_mset_mset)

lemma iter_distinct: "iteration_order iter \<Longrightarrow> distinct (iter xs) = distinct xs"
  by (metis iteration_order_def mset_eq_imp_distinct_iff)

lemma iteration_order_id: "iteration_order (\<lambda>xs. xs)"
  by (simp add: iteration_order_def)

lemma fs_check_file: "fs (snd (check_file iter p w)) = fs w"
proof (cases "fs w p")
  case None
  then show ?thesis by (simp add: check_file_missing)
next
  case (Some n)
  then show ?thesis
    by (cases n) (simp_all add: check_file_text check_file_unreadable)
qed

lemma fs_check_files: "fs (snd (check_files iter ps w)) = fs w"
proof (induction ps arbitrary: w)
  case Nil
  then show ?case by simp
next
  case (Cons p ps)
  obtain r w' where step: "check_file iter p w = (r, w')"
    by (cases "check_file iter p w")
  then have "fs w' = fs w"
    using fs_check_file [of iter p w] by simp
  with Cons step show ?case
    by (cases r) simp_all
qed


subsection \<open>The end-to-end scenario\<close>

text \<open>
  Claim C1. For a file whose full text is
  \<^verbatim>\<open>const x = "Welcome Back"; const y = "Welcome Back";\<close>
  (it does not contain \<^verbatim>\<open>useTranslation\<close>), \<open>check_file\<close> prints the header, both
  marker-missing lines, the count line with the count 1, and the suggestion line that pairs
  \<^verbatim>\<open>"Welcome Back"\<close> with \<^verbatim>\<open>t('auth.welcomeBack')\<close>, whatever the iteration order of the
  set is.
\<close>

theorem welcome_back_report:
  assumes "iteration_order iter" and "fs w p = Some (TextFile welcome_text)"
  shows \<open>\<not> (\<exists>pre post. welcome_text = pre @ str ''useTranslation'' @ post) \<and>
         check_file iter p w =
          (None,
           w\<lparr>stdout := stdout w @
              [[newline, 128196, 32] @ p,
               missing_import_line,
               missing_hook_line,
               str ''  Found 1 potential hardcoded strings'',
               str ''    "Welcome Back" '' @ [8594] @ str '' t('auth.welcomeBack')'']\<rparr>)\<close>
proof -
  have matches: "findall welcome_text = [str ''Welcome Back'', str ''Welcome Back'']"
    by (simp add: welcome_text_def str_def quote_def backslash_def newline_def)
  have kept: "keep (str ''Welcome Back'')"
    by (simp add: keep_def startswith_def str_def)
  have "filter_loop (findall welcome_text) [] = [wrap (str ''Welcome Back''), wrap (str ''Welcome Back'')]"
    by (simp add: matches kept)
  then have cands: "candidates iter welcome_text = [wrap (str ''Welcome Back'')]"
    using assms(1) by (simp add: candidates_def list_of_set_def iter_single)
  have marker: "\<not> str_contains (str ''useTranslation'') welcome_text"
    by (simp add: welcome_text_def str_def)
  have sugg: \<open>suggestion_lines [wrap (str ''Welcome Back'')] =
               [str ''    "Welcome Back" '' @ [8594] @ str '' t('auth.welcomeBack')'']\<close>
    by (simp add: suggestion_lines_def lookup_def TRANSLATIONS_def suggestion_line_def
        wrap_def quote_def str_def)
  have "found_line 1 = str ''  Found 1 potential hardcoded strings''"
    by (simp add: found_line_def str_of_nat.simps str_def)
  then have found: "found_line (Suc 0) = str ''  Found 1 potential hardcoded strings''"
    by simp
  have \<open>file_lines iter p welcome_text =
          [[newline, 128196, 32] @ p, missing_import_line, missing_hook_line,
           str ''  Found 1 potential hardcoded strings'',
           str ''    "Welcome Back" '' @ [8594] @ str '' t('auth.welcomeBack')'']\<close>
    by (simp add: file_lines_def cands marker marker_lines_def sugg found header_line_def)
  then show ?thesis
    using check_file_text [OF assms(2), of iter] marker
    by (simp add: str_contains_iff [symmetric])
qed

theorem welcome_back_report_witness:
  \<open>iteration_order (\<lambda>xs. xs) \<and>
   fs (one_file (str ''a.tsx'') welcome_text) (str ''a.tsx'') = Some (TextFile welcome_text) \<and>
   stdout (snd (check_file (\<lambda>xs. xs) (str ''a.tsx'') (one_file (str ''a.tsx'') welcome_text))) =
     [[newline, 128196, 32] @ str ''a.tsx'',
      missing_import_line,
      missing_hook_line,
      str ''  Found 1 potential hardcoded strings'',
      str ''    "Welcome Back" '' @ [8594] @ str '' t('auth.welcomeBack')'']\<close>
  using welcome_back_report [of "\<lambda>xs. xs" "one_file (str ''a.tsx'') welcome_text" "str ''a.tsx''"]
  by (simp add: iteration_order_def one_file_def)

subsection \<open>Missing paths\<close>



subsection \<open>The file system is only read\<close>

text \<open>
  Claim C9. The script only tests paths for existence and opens files for reading: after
  a complete run, after the loop over any list of paths and after one call of
  \<open>check_file\<close>, whether or not an exception ended it, the file system is the one the run
  started with: no file is created, changed or deleted.
\<close>

theorem read_only: "fs (snd (main iter w)) = fs w \<and> fs (snd (check_files iter ps w)) = fs w
   \<and> fs (snd (check_file iter p w)) = fs w"
proof -
  let ?w2 = "print (replicate 60 61) (print ([127757] @ str '' i18n Checker - Patrick Travel Services Mobile'') w)"
  obtain r w3 where run: "check_files iter files ?w2 = (r, w3)"
    by (cases "check_files iter files ?w2")
  then have "fs w3 = fs w"
    using fs_check_files [of iter files ?w2] by simp
  with run have "fs (snd (main iter w)) = fs w"
    by (cases r) (simp_all add: main_def Let_def)
  then show ?thesis
    by (simp add: fs_check_files fs_check_file)
qed

subsection \<open>More auxiliary facts: the lines of a report\<close>

lemma report_append [simp]: "report w (w\<lparr>stdout := stdout w @ ls\<rparr>) = ls"
  by (simp add: report_def)

lemma take3_header: "take 3 (header_line p) \<noteq> [32, 32, c]"
  by (simp add: header_line_def newline_def)

lemma take3_found: "take 3 (found_line n) = [32, 32, 70]"
  by (simp add: found_line_def str_def)

lemma take3_suggestion: "take 3 (suggestion_line s v) = [32, 32, 32]"
  by (simp add: suggestion_line_def str_def)

lemma take3_missing_import: "take 3 missing_import_line = [32, 32, 10060]"
  by (simp add: missing_import_line_def)

lemma take3_missing_hook: "take 3 missing_hook_line = [32, 32, 10060]"
  by (simp add: missing_hook_line_def)

lemma take3_imported: "take 3 imported_line = [32, 32, 9989]"
  by (simp add: imported_line_def)

lemma in_suggestion_lines:
  "l \<in> set (suggestion_lines ss) \<longleftrightarrow>
     (\<exists>s v. s \<in> set ss \<and> (s, v) \<in> set TRANSLATIONS \<and> l = suggestion_line s v)"
proof
  assume "l \<in> set (suggestion_lines ss)"
  then obtain s where s: "s \<in> set ss" "s \<in> fst ` set TRANSLATIONS"
      "l = suggestion_line s (the (lookup s))"
    by (auto simp: suggestion_lines_def)
  then obtain v where "lookup s = Some v"
    using lookup_None_iff [of s] by (cases "lookup s") auto
  with s show "\<exists>s v. s \<in> set ss \<and> (s, v) \<in> set TRANSLATIONS \<and> l = suggestion_line s v"
    by (auto simp: lookup_Some_iff)
next
  assume "\<exists>s v. s \<in> set ss \<and> (s, v) \<in> set TRANSLATIONS \<and> l = suggestion_line s v"
  then obtain s v where s: "s \<in> set ss" "(s, v) \<in> set TRANSLATIONS" "l = suggestion_line s v"
    by auto
  then have "lookup s = Some v"
    by (simp add: lookup_Some_iff)
  with s show "l \<in> set (suggestion_lines ss)"
    by (force simp: suggestion_lines_def)
qed

lemma file_lines_cases:
  assumes "l \<in> set (file_lines iter p content)"
  shows "l = header_line p \<or> l \<in> set (marker_lines content) \<or> (\<exists>n. l = found_line n) \<or>
         (\<exists>s v. s \<in> set (take 5 (candidates iter content)) \<and> (s, v) \<in> set TRANSLATIONS \<and>
                 l = suggestion_line s v)"
  using assms by (auto simp: file_lines_def in_suggestion_lines split: if_splits)

lemma marker_line_position:
  assumes "l \<in> set (file_lines iter p content)" and "take 3 l = [32, 32, c]"
    and "c \<noteq> 70" and "c \<noteq> 32"
  shows "l \<in> set (marker_lines content)"
proof -
  from file_lines_cases [OF assms(1)]
  consider "l = header_line p" | "l \<in> set (marker_lines content)"
    | n where "l = found_line n" | s v where "l = suggestion_line s v"
    by blast
  then show ?thesis
  proof cases
    case 1
    with assms(2) show ?thesis by (simp add: take3_header)
  next
    case 2
    then show ?thesis .
  next
    case 3
    with assms(2,3) show ?thesis by (simp add: take3_found)
  next
    case 4
    with assms(2,4) show ?thesis by (simp add: take3_suggestion)
  qed
qed

lemma set_candidates:
  "iteration_order iter \<Longrightarrow>
   set (candidates iter content) = wrap ` {s \<in> set (findall content). keep s}"
  by (auto simp: candidates_def list_of_set_def iter_set filter_loop_eq)

lemma distinct_candidates: "iteration_order iter \<Longrightarrow> distinct (candidates iter content)"
  by (simp add: candidates_def list_of_set_def iter_distinct)

lemma length_candidates:
  "iteration_order iter \<Longrightarrow>
   length (candidates iter content) = card (wrap ` {s \<in> set (findall content). keep s})"
  using distinct_card [of "candidates iter content"]
  by (simp add: set_candidates distinct_candidates)

lemma find_hardcoded_strings_text:
  "fs w p = Some (TextFile content) \<Longrightarrow>
   find_hardcoded_strings iter w p = Inr (candidates iter content)"
  by (simp add: find_hardcoded_strings_def open_read_def candidates_def)

subsection \<open>The marker findings\<close>

text \<open>
  Claim C3, as stated, fails: it speaks of every existing input file, but for a path that
  exists and cannot be read as text, \<^verbatim>\<open>open\<close> or \<^verbatim>\<open>read\<close> raises after the header is printed
  and before the marker is looked for. No text was read, so none that contains
  \<^verbatim>\<open>useTranslation\<close>, and yet neither missing line is printed: the header is all there is,
  and the exception ends the call.
\<close>

theorem marker_findings_counterexample:
  "os_path_exists (unreadable_file (str ''a.tsx'')) (str ''a.tsx'') \<and>
   check_file (\<lambda>xs. xs) (str ''a.tsx'') (unreadable_file (str ''a.tsx'')) =
     (Some ReadError, (unreadable_file (str ''a.tsx''))\<lparr>stdout := [header_line (str ''a.tsx'')]\<rparr>) \<and>
   report (unreadable_file (str ''a.tsx''))
     (snd (check_file (\<lambda>xs. xs) (str ''a.tsx'') (unreadable_file (str ''a.tsx'')))) =
     [header_line (str ''a.tsx'')] \<and>
   missing_import_line \<notin>
     set (report (unreadable_file (str ''a.tsx''))
           (snd (check_file (\<lambda>xs. xs) (str ''a.tsx'') (unreadable_file (str ''a.tsx''))))) \<and>
   missing_hook_line \<notin>
     set (report (unreadable_file (str ''a.tsx''))
           (snd (check_file (\<lambda>xs. xs) (str ''a.tsx'') (unreadable_file (str ''a.tsx'')))))"
proof -
  let ?w = "unreadable_file (str ''a.tsx'')"
  have f: "fs ?w (str ''a.tsx'') = Some Unreadable"
    by (simp add: unreadable_file_def)
  have ex: "os_path_exists ?w (str ''a.tsx'')"
    by (simp add: os_path_exists_def f)
  have out: "stdout ?w = []"
    by (simp add: unreadable_file_def)
  have run: "check_file (\<lambda>xs. xs) (str ''a.tsx'') ?w =
      (Some ReadError, ?w\<lparr>stdout := [header_line (str ''a.tsx'')]\<rparr>)"
    using check_file_unreadable [OF f, of "\<lambda>xs. xs"] by (simp add: out)
  have rep: "report ?w (snd (check_file (\<lambda>xs. xs) (str ''a.tsx'') ?w)) =
      [header_line (str ''a.tsx'')]"
    by (simp add: run report_def out)
  have ne: "missing_import_line \<noteq> header_line (str ''a.tsx'')"
    "missing_hook_line \<noteq> header_line (str ''a.tsx'')"
    using take3_header [of "str ''a.tsx''" 10060] take3_missing_import take3_missing_hook
    by auto
  from ex run rep ne show ?thesis
    by simp
qed

text \<open>
  Claim C3, amended. For every existing input file that is a readable text file: if its
  text contains \<^verbatim>\<open>useTranslation\<close> anywhere, neither the missing-import line nor the
  missing-hook line is among the lines \<open>check_file\<close> prints (the line that reports the
  import is); if its text does not contain it, both lines are printed (and the line that
  reports the import is not).
\<close>

theorem marker_findings:
  assumes "fs w p = Some (TextFile content)"
  shows "if (\<exists>pre post. content = pre @ str ''useTranslation'' @ post)
         then missing_import_line \<notin> set (report w (snd (check_file iter p w))) \<and>
              missing_hook_line \<notin> set (report w (snd (check_file iter p w))) \<and>
              imported_line \<in> set (report w (snd (check_file iter p w)))
         else missing_import_line \<in> set (report w (snd (check_file iter p w))) \<and>
              missing_hook_line \<in> set (report w (snd (check_file iter p w))) \<and>
              imported_line \<notin> set (report w (snd (check_file iter p w)))"
proof -
  let ?m = "str_contains (str ''useTranslation'') content"
  have rep: "report w (snd (check_file iter p w)) = file_lines iter p content"
    using check_file_text [OF assms, of iter] by simp
  have ne: "imported_line \<noteq> missing_import_line" "imported_line \<noteq> missing_hook_line"
    using take3_imported take3_missing_import take3_missing_hook by auto
  show ?thesis
  proof (cases ?m)
    case True
    then have ml: "marker_lines content = [imported_line]"
      by (simp add: marker_lines_def)
    have "missing_import_line \<notin> set (file_lines iter p content)"
      using marker_line_position [of missing_import_line iter p content 10060] ne
      by (auto simp: ml take3_missing_import)
    moreover have "missing_hook_line \<notin> set (file_lines iter p content)"
      using marker_line_position [of missing_hook_line iter p content 10060] ne
      by (auto simp: ml take3_missing_hook)
    moreover have "imported_line \<in> set (file_lines iter p content)"
      by (simp add: file_lines_def ml)
    ultimately show ?thesis
      using True by (simp add: rep str_contains_iff)
  next
    case False
    then have ml: "marker_lines content = [missing_import_line, missing_hook_line]"
      by (simp add: marker_lines_def)
    have "imported_line \<notin> set (file_lines iter p content)"
      using marker_line_position [of imported_line iter p content 9989] ne
      by (auto simp: ml take3_imported)
    moreover have "missing_import_line \<in> set (file_lines iter p content)"
      "missing_hook_line \<in> set (file_lines iter p content)"
      by (simp_all add: file_lines_def ml)
    ultimately show ?thesis
      using False by (simp add: rep str_contains_iff)
  qed
qed


theorem marker_findings_witness:
  "fs (one_file (str ''a.tsx'') welcome_text) (str ''a.tsx'') = Some (TextFile welcome_text) \<and>
   missing_import_line \<in>
     set (report (one_file (str ''a.tsx'') welcome_text)
           (snd (check_file (\<lambda>xs. xs) (str ''a.tsx'') (one_file (str ''a.tsx'') welcome_text)))) \<and>
   missing_hook_line \<in>
     set (report (one_file (str ''a.tsx'') welcome_text)
           (snd (check_file (\<lambda>xs. xs) (str ''a.tsx'') (one_file (str ''a.tsx'') welcome_text)))) \<and>
   fs (one_file (str ''a.tsx'') hook_text) (str ''a.tsx'') = Some (TextFile hook_text) \<and>
   missing_import_line \<notin>
     set (report (one_file (str ''a.tsx'') hook_text)
           (snd (check_file (\<lambda>xs. xs) (str ''a.tsx'') (one_file (str ''a.tsx'') hook_text)))) \<and>
   missing_hook_line \<notin>
     set (report (one_file (str ''a.tsx'') hook_text)
           (snd (check_file (\<lambda>xs. xs) (str ''a.tsx'') (one_file (str ''a.tsx'') hook_text))))"
proof -
  have absent: "\<not> (\<exists>pre post. welcome_text = pre @ str ''useTranslation'' @ post)"
    unfolding str_contains_iff [symmetric] by (simp add: welcome_text_def str_def)
  have present: "\<exists>pre post. hook_text = pre @ str ''useTranslation'' @ post"
    unfolding str_contains_iff [symmetric] by (simp add: hook_text_def str_def)
  have f1: "fs (one_file (str ''a.tsx'') welcome_text) (str ''a.tsx'') = Some (TextFile welcome_text)"
    by (simp add: one_file_def)
  have f2: "fs (one_file (str ''a.tsx'') hook_text) (str ''a.tsx'') = Some (TextFile hook_text)"
    by (simp add: one_file_def)
  show ?thesis
    using marker_findings [OF f1, of "\<lambda>xs. xs"] marker_findings [OF f2, of "\<lambda>xs. xs"]
      absent present f1 f2
    by simp
qed

subsection \<open>The shape of the report of one file\<close>

text \<open>
  Claim C2, as stated, fails: for a file without any filtered candidate the script prints
  no count line at all (the guard \<^verbatim>\<open>if strings:\<close>). Here the file
  \<^verbatim>\<open>const x = 1;\<close> gets the header and the two marker lines and nothing else; in
  particular no line with the count 0.
\<close>

theorem report_shape_counterexample:
  "report (one_file (str ''a.tsx'') plain_text)
     (snd (check_file (\<lambda>xs. xs) (str ''a.tsx'') (one_file (str ''a.tsx'') plain_text))) =
     [header_line (str ''a.tsx''), missing_import_line, missing_hook_line] \<and>
   found_line 0 \<notin>
     set (report (one_file (str ''a.tsx'') plain_text)
           (snd (check_file (\<lambda>xs. xs) (str ''a.tsx'') (one_file (str ''a.tsx'') plain_text))))"
proof -
  have f: "fs (one_file (str ''a.tsx'') plain_text) (str ''a.tsx'') = Some (TextFile plain_text)"
    by (simp add: one_file_def)
  have none: "findall plain_text = []"
    by (simp add: plain_text_def str_def quote_def)
  have marker: "\<not> str_contains (str ''useTranslation'') plain_text"
    by (simp add: plain_text_def str_def)
  have lines: "file_lines (\<lambda>xs. xs) (str ''a.tsx'') plain_text =
                 [header_line (str ''a.tsx''), missing_import_line, missing_hook_line]"
    by (simp add: file_lines_def candidates_def list_of_set_def none marker marker_lines_def)
  have "found_line 0 \<noteq> header_line (str ''a.tsx'')" "found_line 0 \<noteq> missing_import_line"
    "found_line 0 \<noteq> missing_hook_line"
    using take3_found [of 0] take3_header [of "str ''a.tsx''" 70] take3_missing_import
      take3_missing_hook
    by auto
  then show ?thesis
    using check_file_text [OF f, of "\<lambda>xs. xs"] lines by simp
qed

text \<open>
  Claim C2, amended. For every text file, \<open>check_file\<close> returns without an exception and
  prints the header with the path, then the marker finding(s), and then, only when there is
  at least one filtered candidate, the number of distinct filtered candidates followed by
  a suggestion line for each of the first five candidates (in iteration order) that is a
  key of the table; the other candidates of the five get no line. Without a filtered
  candidate nothing follows the marker lines.
\<close>

theorem report_shape:
  assumes "iteration_order iter" and "fs w p = Some (TextFile content)"
  shows "fst (check_file iter p w) = None \<and>
         find_hardcoded_strings iter w p = Inr (candidates iter content) \<and>
         distinct (candidates iter content) \<and>
         set (candidates iter content) = wrap ` {s \<in> set (findall content). keep s} \<and>
         report w (snd (check_file iter p w)) =
           [header_line p] @
           (if str_contains (str ''useTranslation'') content then [imported_line]
            else [missing_import_line, missing_hook_line]) @
           (if candidates iter content = [] then []
            else [found_line (card (wrap ` {s \<in> set (findall content). keep s}))] @
                 map (\<lambda>s. suggestion_line s (the (lookup s)))
                   (filter (\<lambda>s. s \<in> fst ` set TRANSLATIONS)
                     (take 5 (candidates iter content))))"
proof -
  have "report w (snd (check_file iter p w)) = file_lines iter p content"
    using check_file_text [OF assms(2), of iter] by simp
  then show ?thesis
    using check_file_text [OF assms(2), of iter] assms(1)
    by (simp add: file_lines_def marker_lines_def suggestion_lines_def
        length_candidates [symmetric] find_hardcoded_strings_text [OF assms(2)]
        distinct_candidates set_candidates)
qed

theorem report_shape_witness:
  \<open>iteration_order (\<lambda>xs. xs) \<and>
   fs (one_file (str ''a.tsx'') (str ''f("Hello", "Email")'')) (str ''a.tsx'') =
     Some (TextFile (str ''f("Hello", "Email")'')) \<and>
   report (one_file (str ''a.tsx'') (str ''f("Hello", "Email")''))
     (snd (check_file (\<lambda>xs. xs) (str ''a.tsx'')
        (one_file (str ''a.tsx'') (str ''f("Hello", "Email")'')))) =
     [header_line (str ''a.tsx''), missing_import_line, missing_hook_line,
      str ''  Found 2 potential hardcoded strings'',
      str ''    "Email" '' @ [8594] @ str '' t('auth.email')'']\<close>
proof -
  let ?c = \<open>str ''f("Hello", "Email")''\<close>
  have io: "iteration_order (\<lambda>xs. xs)"
    by (rule iteration_order_id)
  have f: "fs (one_file (str ''a.tsx'') ?c) (str ''a.tsx'') = Some (TextFile ?c)"
    by (simp add: one_file_def)
  have cands: \<open>candidates (\<lambda>xs. xs) ?c = [str ''"Hello"'', str ''"Email"'']\<close>
    by (simp add: candidates_def list_of_set_def str_def quote_def backslash_def newline_def
        keep_def startswith_def wrap_def)
  have count: "card (wrap ` {s \<in> set (findall ?c). keep s}) = 2"
    using length_candidates [OF io, of ?c] cands by simp
  have marker: "\<not> str_contains (str ''useTranslation'') ?c"
    by (simp add: str_def)
  have two: "found_line 2 = str ''  Found 2 potential hardcoded strings''"
    by (simp add: found_line_def str_of_nat.simps str_def)
  have keys: \<open>str ''"Hello"'' \<notin> fst ` set TRANSLATIONS\<close>
    \<open>str ''"Email"'' \<in> fst ` set TRANSLATIONS\<close>
    by (simp_all add: TRANSLATIONS_def str_def)
  have line: \<open>suggestion_line (str ''"Email"'') (the (lookup (str ''"Email"''))) =
               str ''    "Email" '' @ [8594] @ str '' t('auth.email')''\<close>
    by (simp add: suggestion_line_def lookup_def TRANSLATIONS_def str_def)
  show ?thesis
    using report_shape [OF io f] io f
    by (simp add: cands count marker two keys line)
qed

lemma wrap_inj: "wrap s = wrap t \<longleftrightarrow> s = t"
  by (simp add: wrap_def)

lemma report_preview: "report w (preview ss w) = suggestion_lines ss"
  by (simp add: report_def stdout_preview)

subsection \<open>The lookup in the mapping table\<close>

text \<open>
  Claim C6. The lookup is exact: it returns a replacement for \<open>s\<close> only when the pair of
  \<open>s\<close>, quotes included, and that replacement is an entry of the table. One step of the
  preview loop prints the suggestion line when \<open>s\<close> is equal to a key, and otherwise
  leaves the world as it is (nothing printed); so the lines the loop prints are those of
  the candidates equal to a key, in order. No case folding, no trimming: a candidate that
  differs from every key in one character gets no line.
\<close>

theorem lookup_exact:
  "(lookup s = Some v \<longleftrightarrow> (s, v) \<in> set TRANSLATIONS) \<and>
   preview_step s w =
     (if s \<in> fst ` set TRANSLATIONS then print (suggestion_line s (the (lookup s))) w else w) \<and>
   report w (preview ss w) =
     concat (map (\<lambda>s. if s \<in> fst ` set TRANSLATIONS
                       then [suggestion_line s (the (lookup s))] else []) ss)"
proof -
  have step: "preview_step s w =
     (if s \<in> fst ` set TRANSLATIONS then print (suggestion_line s (the (lookup s))) w else w)"
    using lookup_None_iff [of s] by (cases "lookup s") (auto simp: preview_step_def)
  have "suggestion_lines ss =
     concat (map (\<lambda>s. if s \<in> fst ` set TRANSLATIONS
                       then [suggestion_line s (the (lookup s))] else []) ss)"
    by (induction ss) (simp_all add: suggestion_lines_def)
  with step show ?thesis
    by (simp add: lookup_Some_iff report_preview)
qed

theorem lookup_exact_witness:
  \<open>(str ''"Welcome Back "'', str ''t('auth.welcomeBack')'') \<notin> set TRANSLATIONS \<and>
   lookup (str ''"Welcome Back "'') \<noteq> Some (str ''t('auth.welcomeBack')'') \<and>
   preview_step (str ''"Welcome Back "'') (one_file (str ''a.tsx'') welcome_text) =
     one_file (str ''a.tsx'') welcome_text \<and>
   report (one_file (str ''a.tsx'') welcome_text)
     (preview [str ''"Welcome Back "'', str ''"Welcome Back"'', str ''"welcome back"'']
        (one_file (str ''a.tsx'') welcome_text)) =
     [str ''    "Welcome Back" '' @ [8594] @ str '' t('auth.welcomeBack')'']\<close>
proof -
  let ?s = \<open>str ''"Welcome Back "''\<close>
  let ?v = \<open>str ''t('auth.welcomeBack')''\<close>
  let ?w = "one_file (str ''a.tsx'') welcome_text"
  let ?ss = \<open>[str ''"Welcome Back "'', str ''"Welcome Back"'', str ''"welcome back"'']\<close>
  note exact = lookup_exact [of ?s ?v ?w ?ss]
  have keys: \<open>str ''"Welcome Back "'' \<notin> fst ` set TRANSLATIONS\<close>
    \<open>str ''"welcome back"'' \<notin> fst ` set TRANSLATIONS\<close>
    \<open>str ''"Welcome Back"'' \<in> fst ` set TRANSLATIONS\<close>
    by (simp_all add: TRANSLATIONS_def str_def)
  have pair: "(?s, ?v) \<notin> set TRANSLATIONS"
    using keys(1) by force
  have val: \<open>the (lookup (str ''"Welcome Back"'')) = str ''t('auth.welcomeBack')''\<close>
    by (simp add: lookup_def TRANSLATIONS_def str_def)
  have line: \<open>suggestion_line (str ''"Welcome Back"'') (str ''t('auth.welcomeBack')'') =
      str ''    "Welcome Back" '' @ [8594] @ str '' t('auth.welcomeBack')''\<close>
    by (simp add: suggestion_line_def str_def)
  have one: "lookup ?s \<noteq> Some ?v"
    using exact [THEN conjunct1] pair by blast
  have two: "preview_step ?s ?w = ?w"
    using exact [THEN conjunct2, THEN conjunct1] keys(1) by (simp only: if_False)
  have three: \<open>report ?w (preview ?ss ?w) =
      [str ''    "Welcome Back" '' @ [8594] @ str '' t('auth.welcomeBack')'']\<close>
    unfolding exact [THEN conjunct2, THEN conjunct2]
    by (simp only: list.map concat.simps keys if_True if_False val line append_Nil append_Nil2)
  from pair one two three show ?thesis
    by blast
qed

subsection \<open>Deduplication\<close>

text \<open>
  Claim C7. The list \<open>find_hardcoded_strings\<close> returns has no duplicates: every literal
  that passes the filter occurs in it exactly once, however often it occurs in the text;
  its length is the number of distinct filtered candidates, and that length is the count
  the report prints (once) when the list is not empty.
\<close>

theorem candidates_deduplicated:
  assumes "iteration_order iter" and "fs w p = Some (TextFile content)"
    and "find_hardcoded_strings iter w p = Inr strings"
  shows "distinct strings \<and>
         (\<forall>s. s \<in> set (findall content) \<and> keep s \<longrightarrow> count_list strings (wrap s) = 1) \<and>
         length strings = card (wrap ` {s \<in> set (findall content). keep s}) \<and>
         (strings \<noteq> [] \<longrightarrow>
            count_list (report w (snd (check_file iter p w))) (found_line (length strings)) = 1)"
proof -
  have strings: "strings = candidates iter content"
    using assms(2,3) by (simp add: find_hardcoded_strings_text)
  have d: "distinct strings"
    using assms(1) by (simp add: strings distinct_candidates)
  have once: "count_list strings (wrap s) = 1" if "s \<in> set (findall content)" "keep s" for s
  proof -
    from that have "wrap s \<in> set strings"
      using assms(1) by (auto simp: strings set_candidates)
    with d show ?thesis
      by (induction strings) auto
  qed
  have len: "length strings = card (wrap ` {s \<in> set (findall content). keep s})"
    using assms(1) by (simp add: strings length_candidates)
  have rep: "report w (snd (check_file iter p w)) = file_lines iter p content"
    using check_file_text [OF assms(2), of iter] by simp
  have cnt: "count_list (file_lines iter p content) (found_line (length strings)) = 1"
    if "strings \<noteq> []"
  proof -
    let ?f = "found_line (length strings)"
    have "?f \<noteq> header_line p"
      using take3_found [of "length strings"] take3_header [of p 70] by auto
    moreover have "?f \<notin> set (marker_lines content)"
      using take3_found [of "length strings"] take3_missing_import take3_missing_hook
        take3_imported
      by (auto simp: marker_lines_def)
    moreover have "?f \<notin> set (suggestion_lines ss)" for ss
      using take3_found [of "length strings"] 
      by (auto simp: in_suggestion_lines take3_suggestion dest: arg_cong [where f = "take 3"])
    ultimately show ?thesis
      using that by (simp add: file_lines_def strings [symmetric])
  qed
  from d once len cnt show ?thesis
    by (simp add: rep)
qed

theorem candidates_deduplicated_witness:
  \<open>iteration_order (\<lambda>xs. xs) \<and>
   fs (one_file (str ''a.tsx'') welcome_text) (str ''a.tsx'') = Some (TextFile welcome_text) \<and>
   find_hardcoded_strings (\<lambda>xs. xs) (one_file (str ''a.tsx'') welcome_text) (str ''a.tsx'') =
     Inr [str ''"Welcome Back"''] \<and>
   count_list (findall welcome_text) (str ''Welcome Back'') = 2 \<and>
   count_list [str ''"Welcome Back"''] (wrap (str ''Welcome Back'')) = 1 \<and>
   count_list
     (report (one_file (str ''a.tsx'') welcome_text)
        (snd (check_file (\<lambda>xs. xs) (str ''a.tsx'') (one_file (str ''a.tsx'') welcome_text))))
     (found_line 1) = 1\<close>
proof -
  let ?w = "one_file (str ''a.tsx'') welcome_text"
  have io: "iteration_order (\<lambda>xs. xs)"
    by (rule iteration_order_id)
  have f: "fs ?w (str ''a.tsx'') = Some (TextFile welcome_text)"
    by (simp add: one_file_def)
  have matches: "findall welcome_text = [str ''Welcome Back'', str ''Welcome Back'']"
    by (simp add: welcome_text_def str_def quote_def backslash_def newline_def)
  have kept: "keep (str ''Welcome Back'')"
    by (simp add: keep_def startswith_def str_def)
  have w: \<open>wrap (str ''Welcome Back'') = str ''"Welcome Back"''\<close>
    by (simp add: wrap_def str_def quote_def)
  have cands: \<open>candidates (\<lambda>xs. xs) welcome_text = [str ''"Welcome Back"'']\<close>
    by (simp add: candidates_def list_of_set_def matches kept w)
  have fhs: \<open>find_hardcoded_strings (\<lambda>xs. xs) ?w (str ''a.tsx'') = Inr [str ''"Welcome Back"'']\<close>
    by (simp only: find_hardcoded_strings_text [OF f] cands)
  note dedup = candidates_deduplicated [OF io f fhs]
  have twice: "count_list (findall welcome_text) (str ''Welcome Back'') = 2"
    by (simp add: matches)
  have "str ''Welcome Back'' \<in> set (findall welcome_text)"
    by (simp add: matches)
  with dedup kept
  have once: \<open>count_list [str ''"Welcome Back"''] (wrap (str ''Welcome Back'')) = 1\<close>
    by blast
  from dedup
  have "count_list (report ?w (snd (check_file (\<lambda>xs. xs) (str ''a.tsx'') ?w)))
      (found_line (length [str ''\"Welcome Back\"''])) = 1"
    by blast
  then have printed: "count_list (report ?w (snd (check_file (\<lambda>xs. xs) (str ''a.tsx'') ?w)))
      (found_line 1) = 1"
    by simp
  from io f fhs twice once printed show ?thesis
    by blast
qed

subsection \<open>The filter\<close>

text \<open>
  Claim C4. A raw candidate of the text is in the list \<open>find_hardcoded_strings\<close> returns
  (wrapped in its quotes) exactly when it is none of: an interior of at most 2 characters,
  an interior that begins with \<^verbatim>\<open>/\<close>, an interior that begins with \<^verbatim>\<open>#\<close>.
\<close>

theorem filter_rule:
  assumes "iteration_order iter" and "fs w p = Some (TextFile content)"
    and "find_hardcoded_strings iter w p = Inr strings"
    and "s \<in> set (findall content)"
  shows "wrap s \<in> set strings \<longleftrightarrow>
         \<not> (length s \<le> 2 \<or> take 1 s = str ''/'' \<or> take 1 s = str ''#'')"
proof -
  have strings: "strings = candidates iter content"
    using assms(2,3) by (simp add: find_hardcoded_strings_text)
  have starts: "startswith s [c] \<longleftrightarrow> take 1 s = [c]" for c
    by (cases s) (auto simp: startswith_def)
  have "wrap s \<in> set strings \<longleftrightarrow> keep s"
    using assms(1,4) by (auto simp: strings set_candidates wrap_inj)
  then show ?thesis
    by (auto simp: keep_def starts str_def)
qed

theorem filter_rule_witness:
  \<open>iteration_order (\<lambda>xs. xs) \<and>
   fs (one_file (str ''a.tsx'') mixed_text) (str ''a.tsx'') = Some (TextFile mixed_text) \<and>
   findall mixed_text = [str ''ab'', str ''/home'', str ''#fff'', str ''Hello''] \<and>
   find_hardcoded_strings (\<lambda>xs. xs) (one_file (str ''a.tsx'') mixed_text) (str ''a.tsx'') =
     Inr [str ''"Hello"''] \<and>
   wrap (str ''Hello'') \<in> set [str ''"Hello"''] \<and>
   wrap (str ''ab'') \<notin> set [str ''"Hello"''] \<and>
   wrap (str ''/home'') \<notin> set [str ''"Hello"''] \<and>
   wrap (str ''#fff'') \<notin> set [str ''"Hello"'']\<close>
proof -
  let ?w = "one_file (str ''a.tsx'') mixed_text"
  have io: "iteration_order (\<lambda>xs. xs)"
    by (rule iteration_order_id)
  have f: "fs ?w (str ''a.tsx'') = Some (TextFile mixed_text)"
    by (simp add: one_file_def)
  have matches: "findall mixed_text = [str ''ab'', str ''/home'', str ''#fff'', str ''Hello'']"
    by (simp add: mixed_text_def str_def quote_def backslash_def newline_def)
  have cands: \<open>candidates (\<lambda>xs. xs) mixed_text = [str ''"Hello"'']\<close>
    by (simp add: candidates_def list_of_set_def matches keep_def startswith_def wrap_def
        str_def quote_def)
  have fhs: \<open>find_hardcoded_strings (\<lambda>xs. xs) ?w (str ''a.tsx'') = Inr [str ''"Hello"'']\<close>
    by (simp only: find_hardcoded_strings_text [OF f] cands)
  note rule = filter_rule [OF io f fhs]
  have a: "wrap (str ''Hello'') \<in> set [str ''\"Hello\"'']"
    using rule [of "str ''Hello''"] by (simp add: matches str_def)
  have b: "wrap (str ''ab'') \<notin> set [str ''\"Hello\"'']"
    using rule [of "str ''ab''"] by (simp add: matches str_def)
  have c: "wrap (str ''/home'') \<notin> set [str ''\"Hello\"'']"
    using rule [of "str ''/home''"] by (simp add: matches str_def)
  have d: "wrap (str ''#fff'') \<notin> set [str ''\"Hello\"'']"
    using rule [of "str ''#fff''"] by (simp add: matches str_def)
  from io f matches fhs a b c d show ?thesis
    by blast
qed

subsection \<open>Escaped characters in a literal\<close>







subsection \<open>The entry for \<^verbatim>\<open>"OK"\<close>\<close>

lemma ok_value_key:
  assumes "(k, v) \<in> set TRANSLATIONS"
    and "suffix ([32, 8594, 32] @ str ''t('common.ok')'') (suggestion_line k v)"
  shows \<open>k = str ''"OK"''\<close>
  using assms
  by (simp add: TRANSLATIONS_def suggestion_line_def str_def suffix_to_prefix)
    (elim disjE conjE; simp)

lemma ok_not_candidate:
  assumes "iteration_order iter"
  shows \<open>str ''"OK"'' \<notin> set (candidates iter content)\<close>
proof
  assume \<open>str ''"OK"'' \<in> set (candidates iter content)\<close>
  then obtain s where s: "keep s" \<open>str ''"OK"'' = wrap s\<close>
    using assms by (auto simp: set_candidates)
  from s(2) have "s = str ''OK''"
    by (simp add: wrap_def str_def quote_def)
  with s(1) show False
    by (simp add: keep_def str_def)
qed

text \<open>
  Claim C10. The table has the entry for \<^verbatim>\<open>"OK"\<close>, but no run reaches it: the list
  \<open>find_hardcoded_strings\<close> returns never holds \<^verbatim>\<open>"OK"\<close> (its interior has 2 characters,
  the filter wants more than 2), and \<open>check_file\<close> never prints a line that suggests
  \<^verbatim>\<open>t('common.ok')\<close>, for any candidate, path and file system.
\<close>

theorem ok_entry_unreachable:
  assumes "iteration_order iter"
  shows \<open>lookup (str ''"OK"'') = Some (str ''t('common.ok')'') \<and>
         (\<forall>strings. find_hardcoded_strings iter w p = Inr strings \<longrightarrow>
            str ''"OK"'' \<notin> set strings) \<and>
         (\<forall>s. suggestion_line s (str ''t('common.ok')'') \<notin>
            set (report w (snd (check_file iter p w))))\<close>
proof -
  have entry: \<open>lookup (str ''"OK"'') = Some (str ''t('common.ok')'')\<close>
    by (simp add: lookup_def TRANSLATIONS_def str_def)
  have never: \<open>str ''"OK"'' \<notin> set strings\<close>
    if "find_hardcoded_strings iter w p = Inr strings" for strings
  proof -
    from that obtain content where "fs w p = Some (TextFile content)"
      by (auto simp: find_hardcoded_strings_def open_read_def
          split: option.splits node.splits)
    with that have "strings = candidates iter content"
      by (simp add: find_hardcoded_strings_text)
    then show ?thesis
      using assms by (simp add: ok_not_candidate)
  qed
  have quiet: "suggestion_line s (str ''t('common.ok')'') \<notin>
      set (report w (snd (check_file iter p w)))" for s
  proof (cases "fs w p")
    case None
    then show ?thesis
      by (simp add: check_file_missing report_def)
  next
    case (Some n)
    show ?thesis
    proof (cases n)
      case Unreadable
      with Some have "report w (snd (check_file iter p w)) = [header_line p]"
        by (simp add: check_file_unreadable)
      then show ?thesis
        using take3_suggestion [of s "str ''t('common.ok')''"] take3_header [of p 32]
        by auto
    next
      case (TextFile content)
      with Some have rep: "report w (snd (check_file iter p w)) = file_lines iter p content"
        by (simp add: check_file_text)
      let ?l = "suggestion_line s (str ''t('common.ok')'')"
      have "?l \<notin> set (file_lines iter p content)"
      proof
        assume "?l \<in> set (file_lines iter p content)"
        from file_lines_cases [OF this]
        consider "?l = header_line p" | "?l \<in> set (marker_lines content)"
          | n where "?l = found_line n"
          | k v where "k \<in> set (take 5 (candidates iter content))"
              "(k, v) \<in> set TRANSLATIONS" "?l = suggestion_line k v"
          by blast
        then show False
        proof cases
          case 1
          then show False
            using take3_suggestion [of s "str ''t('common.ok')''"] take3_header [of p 32]
            by auto
        next
          case 2
          then show False
            using take3_suggestion [of s "str ''t('common.ok')''"] take3_missing_import
              take3_missing_hook take3_imported
            by (auto simp: marker_lines_def split: if_splits)
        next
          case 3
          then show False
            using take3_suggestion [of s "str ''t('common.ok')''"] take3_found [of n]
            by auto
        next
          case 4
          have "suffix ([32, 8594, 32] @ str ''t('common.ok')'') ?l"
            unfolding suggestion_line_def suffix_def
            by (rule exI [of _ "str ''    '' @ s"]) simp
          with 4(3) have "suffix ([32, 8594, 32] @ str ''t('common.ok')'') (suggestion_line k v)"
            by simp
          with 4(2) have \<open>k = str ''"OK"''\<close>
            by (rule ok_value_key)
          with 4(1) have \<open>str ''"OK"'' \<in> set (candidates iter content)\<close>
            by (auto dest: in_set_takeD)
          with assms show False
            by (simp add: ok_not_candidate)
        qed
      qed
      then show ?thesis
        by (simp add: rep)
    qed
  qed
  from entry never quiet show ?thesis
    by blast
qed

theorem ok_entry_unreachable_witness:
  \<open>iteration_order (\<lambda>xs. xs) \<and>
   findall ok_text = [str ''OK'', str ''Cancel''] \<and>
   find_hardcoded_strings (\<lambda>xs. xs) (one_file (str ''a.tsx'') ok_text) (str ''a.tsx'') =
     Inr [str ''"Cancel"''] \<and>
   str ''"OK"'' \<notin> set [str ''"Cancel"''] \<and>
   suggestion_line (str ''"OK"'') (str ''t('common.ok')'') \<notin>
     set (report (one_file (str ''a.tsx'') ok_text)
           (snd (check_file (\<lambda>xs. xs) (str ''a.tsx'') (one_file (str ''a.tsx'') ok_text))))\<close>
proof -
  let ?w = "one_file (str ''a.tsx'') ok_text"
  have io: "iteration_order (\<lambda>xs. xs)"
    by (rule iteration_order_id)
  have f: "fs ?w (str ''a.tsx'') = Some (TextFile ok_text)"
    by (simp add: one_file_def)
  have matches: "findall ok_text = [str ''OK'', str ''Cancel'']"
    by (simp add: ok_text_def str_def quote_def backslash_def newline_def)
  have cands: \<open>candidates (\<lambda>xs. xs) ok_text = [str ''"Cancel"'']\<close>
    by (simp add: candidates_def list_of_set_def matches keep_def startswith_def wrap_def
        str_def quote_def)
  have fhs: \<open>find_hardcoded_strings (\<lambda>xs. xs) ?w (str ''a.tsx'') = Inr [str ''"Cancel"'']\<close>
    by (simp only: find_hardcoded_strings_text [OF f] cands)
  note ok = ok_entry_unreachable [OF io, of ?w "str ''a.tsx''"]
  from ok fhs have a: \<open>str ''"OK"'' \<notin> set [str ''"Cancel"'']\<close>
    by blast
  from ok have b: \<open>suggestion_line (str ''"OK"'') (str ''t('common.ok')'') \<notin>
     set (report ?w (snd (check_file (\<lambda>xs. xs) (str ''a.tsx'') ?w)))\<close>
    by blast
  from io matches fhs a b show ?thesis
    by blast
qed

end
